theory Spec2Isabelle
  imports Main "HOL-Library.Word"
begin

section \<open>Keyboard navigation of the application menu bar\<close>

text \<open>
  A shallow embedding of \<^verbatim>\<open>src/appshell/view/navigableappmenumodel.cpp\<close>.
  The member variables of \<^verbatim>\<open>NavigableAppMenuModel\<close> form a record that every
  operation takes and returns. Signals and calls into collaborators (the navigation
  controller, its controls, the actions dispatcher) are appended to a log kept in the
  record, in the order the code issues them. A negative string index and a call through a
  null pointer are values of the type \<open>error\<close>.
\<close>

subsection \<open>Qt types\<close>

text \<open>A \<^verbatim>\<open>QChar\<close> is a 16-bit code unit and a \<^verbatim>\<open>QString\<close> a sequence of
  them. \<open>latin1\<close> is the \<^verbatim>\<open>QChar\<close> of a character literal and \<open>QStr\<close> the
  \<^verbatim>\<open>QString\<close> of a string literal.\<close>

type_synonym QChar = "16 word"

type_synonym QString = "QChar list"

definition latin1 :: "char \<Rightarrow> QChar" where
  "latin1 c = of_nat (of_char c)"

definition QStr :: "string \<Rightarrow> QString" where
  "QStr s = map latin1 s"

definition ampersand :: QChar where
  "ampersand = latin1 CHR ''&''"

datatype KeyboardModifier =
  ShiftModifier | ControlModifier | AltModifier | MetaModifier | KeypadModifier | GroupSwitchModifier

text \<open>\<^verbatim>\<open>Qt::KeyboardModifiers\<close> is a set of flags: \<^verbatim>\<open>!modifiers\<close> is emptiness and
  \<^verbatim>\<open>modifiers & Qt::AltModifier\<close> is membership.\<close>

type_synonym KeyboardModifiers = "KeyboardModifier set"

definition Key_Space :: int where "Key_Space = 32"
definition Key_Escape :: int where "Key_Escape = 16777216"
definition Key_Return :: int where "Key_Return = 16777220"
definition Key_Left :: int where "Key_Left = 16777234"
definition Key_Right :: int where "Key_Right = 16777236"
definition Key_Down :: int where "Key_Down = 16777237"
definition Key_Shift :: int where "Key_Shift = 16777248"
definition Key_Alt :: int where "Key_Alt = 16777251"
definition Key_unknown :: int where "Key_unknown = 33554431"

datatype EventType = ShortcutOverride | KeyPress | KeyRelease | MouseButtonPress | OtherEventType

record QKeyEvent =
  ke_key :: int
  ke_modifiers :: KeyboardModifiers
  ke_text :: QString

text \<open>An event object: its type tag, its accepted flag, and the key data when the
  object is a \<^verbatim>\<open>QKeyEvent\<close> (\<open>None\<close> when \<^verbatim>\<open>dynamic_cast<QKeyEvent*>\<close> gives null,
  as for a \<^verbatim>\<open>QMouseEvent\<close>).\<close>

record QEvent =
  ev_type :: EventType
  ev_accepted :: bool
  ev_key :: "QKeyEvent option"

record QObject =
  obj_addr :: nat
  obj_isWindowType :: bool

datatype error = IndexOutOfRange | NullPointerDereference

text \<open>\<^verbatim>\<open>QString::indexOf(QChar)\<close>: the position of the first occurrence, \<open>-1\<close> when
  there is none.\<close>

fun indexOf :: "QString \<Rightarrow> QChar \<Rightarrow> int" where
  "indexOf [] c = - 1"
| "indexOf (x # xs) c =
     (if x = c then 0 else (let r = indexOf xs c in if r = - 1 then - 1 else r + 1))"

text \<open>\<^verbatim>\<open>title[i]\<close> on the local, non-const \<^verbatim>\<open>QString title\<close>:
  \<^verbatim>\<open>QString::operator[](int)\<close> asserts \<open>i \<ge> 0\<close> and returns a \<^verbatim>\<open>QCharRef\<close>;
  read as a \<^verbatim>\<open>QChar\<close> it is the character at \<open>i\<close> when \<open>i\<close> is below the size
  of the string, and the null \<^verbatim>\<open>QChar()\<close> when it is at or past the size.\<close>

definition charAt :: "QString \<Rightarrow> int \<Rightarrow> error + QChar" where
  "charAt s i =
     (if i < 0 then Inl IndexOutOfRange
      else if i < int (length s) then Inr (s ! nat i)
      else Inr 0)"

subsection \<open>Menu items and the menu item store\<close>

datatype MenuItem = MenuItem (item_id: QString) (title: QString) (subitems: "MenuItem list")

text \<open>Modelled from the spec: \<^verbatim>\<open>MenuItem::isValid\<close> is declared outside this file.
  An item is valid when it has an identifier; the placeholder that a failed lookup
  yields has none.\<close>

definition isValid :: "MenuItem \<Rightarrow> bool" where
  "isValid m = (item_id m \<noteq> [])"

text \<open>Modelled from the spec: the default-constructed \<^verbatim>\<open>MenuItem\<close>, declared
  outside this file: the placeholder without identifier, title or subitems.\<close>

definition dummy :: MenuItem where
  "dummy = MenuItem [] [] []"

text \<open>Modelled from the spec: \<^verbatim>\<open>AbstractMenuModel::itemIndex\<close> is not in this file:
  the index of the identifier in the top-level sequence, \<open>-1\<close> when it is not there.\<close>

fun itemIndex :: "MenuItem list \<Rightarrow> QString \<Rightarrow> int" where
  "itemIndex [] i = - 1"
| "itemIndex (m # ms) i =
     (if item_id m = i then 0 else (let r = itemIndex ms i in if r = - 1 then - 1 else r + 1))"

text \<open>Modelled from the spec: \<^verbatim>\<open>AbstractMenuModel::rowCount\<close> is not in this file:
  the number of top-level items.\<close>

definition rowCount :: "MenuItem list \<Rightarrow> int" where
  "rowCount ms = int (length ms)"

text \<open>Modelled from the spec: \<^verbatim>\<open>AbstractMenuModel::item(int)\<close> is not in this file:
  the item at a position of the top-level sequence, the invalid placeholder when the
  position does not exist.\<close>

definition item :: "MenuItem list \<Rightarrow> int \<Rightarrow> MenuItem" where
  "item ms i = (if 0 \<le> i \<and> i < int (length ms) then ms ! nat i else dummy)"

text \<open>Modelled from the spec: the store's search by identifier, which is not in this
  file: the first item with the identifier, searching each item before its subitems and
  the items in their declared order. An unresolved lookup is not an error: the callers
  get the invalid placeholder.\<close>

fun lookup_item :: "MenuItem \<Rightarrow> QString \<Rightarrow> MenuItem option"
  and lookup_items :: "MenuItem list \<Rightarrow> QString \<Rightarrow> MenuItem option" where
  "lookup_item (MenuItem i t subs) x =
     (if i = x then Some (MenuItem i t subs) else lookup_items subs x)"
| "lookup_items [] x = None"
| "lookup_items (m # ms) x =
     (case lookup_item m x of Some r \<Rightarrow> Some r | None \<Rightarrow> lookup_items ms x)"

text \<open>Modelled from the spec: \<^verbatim>\<open>AbstractMenuModel::findItem\<close> is not in this file:
  the item the store resolves for an identifier.\<close>

definition findItem :: "MenuItem list \<Rightarrow> QString \<Rightarrow> MenuItem" where
  "findItem ms x = (case lookup_items ms x of Some r \<Rightarrow> r | None \<Rightarrow> dummy)"

text \<open>Modelled from the spec: \<^verbatim>\<open>AbstractMenuModel::findMenu\<close> is not in this file:
  the menu the store resolves for an identifier.\<close>

definition findMenu :: "MenuItem list \<Rightarrow> QString \<Rightarrow> MenuItem" where
  "findMenu ms x = (case lookup_items ms x of Some r \<Rightarrow> r | None \<Rightarrow> dummy)"

text \<open>Every item of the store, each item before its subitems and the items in their
  declared order: the sequence the search by identifier runs through.\<close>

fun allItems_of :: "MenuItem \<Rightarrow> MenuItem list"
  and allItems :: "MenuItem list \<Rightarrow> MenuItem list" where
  "allItems_of (MenuItem i t subs) = MenuItem i t subs # allItems subs"
| "allItems [] = []"
| "allItems (m # ms) = allItems_of m @ allItems ms"

subsection \<open>Collaborators\<close>

type_synonym control = nat

text \<open>What the code reads from \<^verbatim>\<open>navigationController()\<close>: the highlight flag, the
  names of the active section and panel (\<open>None\<close> for a null pointer) and the active
  control.\<close>

record NavigationController =
  nc_isHighlight :: bool
  nc_activeSection :: "QString option"
  nc_activePanel :: "QString option"
  nc_activeControl :: "control option"

text \<open>The services the file consumes and does not implement:
  \<^verbatim>\<open>QKeyMapper::possibleKeys\<close>, the Unicode-wide \<^verbatim>\<open>QChar::toUpper\<close>, the
  navigation controller's reaction to \<^verbatim>\<open>requestActivateByName\<close>, and the event
  filter of the base class.\<close>

record Env =
  QKeyMapper_possibleKeys :: "EventType \<Rightarrow> QKeyEvent \<Rightarrow> int list"
  QChar_toUpper :: "QChar \<Rightarrow> QChar"
  afterRequestActivateByName ::
    "NavigationController \<Rightarrow> QString \<Rightarrow> QString \<Rightarrow> QString \<Rightarrow> NavigationController"
  base_eventFilter :: "QObject option \<Rightarrow> QEvent \<Rightarrow> bool"

datatype Effect =
  HighlightedMenuIdChanged QString
| OpenedMenuIdChanged QString
| OpenMenu QString
| Dispatch string
| RequestActivateByName QString QString QString
| SetActive control bool
| RequestActive control
| Trigger control

subsection \<open>The model's state\<close>

record NavigableAppMenuModel =
  items :: "MenuItem list"
  m_highlightedMenuId :: QString
  m_openedMenuId :: QString
  m_needActivateHighlight :: bool
  m_lastActiveNavigationControl :: "control option"
  m_appWindow :: "QObject option"
  navigationController :: NavigationController
  emitted :: "Effect list"

definition emit :: "Effect \<Rightarrow> NavigableAppMenuModel \<Rightarrow> NavigableAppMenuModel" where
  "emit e s = s\<lparr>emitted := emitted s @ [e]\<rparr>"

subsection \<open>Key resolution\<close>

text \<open>\<^verbatim>\<open>possibleKeys(QKeyEvent*)\<close> overwrites the modifiers of the event it is given
  (the "corrected" event is the same object) and returns the mapper's codes as a set.\<close>

definition possibleKeys_event :: "Env \<Rightarrow> EventType \<Rightarrow> QKeyEvent \<Rightarrow> QKeyEvent \<times> int set" where
  "possibleKeys_event env t ke =
     (let corrected = ke\<lparr>ke_modifiers := {AltModifier}\<rparr>
      in (corrected, set (QKeyMapper_possibleKeys env t corrected)))"

definition possibleKeys_char :: "Env \<Rightarrow> QChar \<Rightarrow> int set" where
  "possibleKeys_char env keySymbol =
     set (QKeyMapper_possibleKeys env KeyRelease
            \<lparr>ke_key = Key_unknown, ke_modifiers = {AltModifier}, ke_text = [keySymbol]\<rparr>)"

definition intersects :: "int set \<Rightarrow> int set \<Rightarrow> bool" where
  "intersects A B = (A \<inter> B \<noteq> {})"

subsection \<open>Operations\<close>

definition setHighlightedMenuId :: "QString \<Rightarrow> NavigableAppMenuModel \<Rightarrow> NavigableAppMenuModel" where
  "setHighlightedMenuId h s =
     (if m_highlightedMenuId s = h then s
      else emit (HighlightedMenuIdChanged h) (s\<lparr>m_highlightedMenuId := h\<rparr>))"

definition setOpenedMenuId :: "QString \<Rightarrow> NavigableAppMenuModel \<Rightarrow> NavigableAppMenuModel" where
  "setOpenedMenuId h s =
     (if m_openedMenuId s = h then s
      else emit (OpenedMenuIdChanged h) (s\<lparr>m_openedMenuId := h\<rparr>))"

fun menuItemId :: "Env \<Rightarrow> MenuItem list \<Rightarrow> int set \<Rightarrow> error + QString" where
  "menuItemId env [] activatePossibleKeys = Inr []"
| "menuItemId env (it # rest) activatePossibleKeys =
     (let activateKeyIndex = indexOf (title it) ampersand
      in if activateKeyIndex = - 1 then menuItemId env rest activatePossibleKeys
         else (case charAt (title it) (activateKeyIndex + 1) of
                 Inl e \<Rightarrow> Inl e
               | Inr c \<Rightarrow>
                   if intersects (possibleKeys_char env (QChar_toUpper env c)) activatePossibleKeys
                   then Inr (item_id it)
                   else menuItemId env rest activatePossibleKeys))"

definition isNavigationStarted :: "NavigableAppMenuModel \<Rightarrow> bool" where
  "isNavigationStarted s = (m_highlightedMenuId s \<noteq> [])"

definition isNavigateKey :: "int \<Rightarrow> bool" where
  "isNavigateKey k =
     (k \<in> set [Key_Left, Key_Right, Key_Down, Key_Space, Key_Escape, Key_Return])"

definition hasItem :: "Env \<Rightarrow> NavigableAppMenuModel \<Rightarrow> int set \<Rightarrow> error + bool" where
  "hasItem env s activatePossibleKeys =
     (case menuItemId env (items s) activatePossibleKeys of
        Inl e \<Rightarrow> Inl e
      | Inr r \<Rightarrow> Inr (r \<noteq> []))"

definition hasSubItem :: "Env \<Rightarrow> NavigableAppMenuModel \<Rightarrow> QString \<Rightarrow> int set \<Rightarrow> error + bool" where
  "hasSubItem env s menuId activatePossibleKeys =
     (let menuItem = findMenu (items s) menuId
      in if subitems menuItem = [] then Inr False
         else (case menuItemId env (subitems menuItem) activatePossibleKeys of
                 Inl e \<Rightarrow> Inl e
               | Inr r \<Rightarrow> Inr (r \<noteq> [])))"

definition resetNavigation :: "NavigableAppMenuModel \<Rightarrow> NavigableAppMenuModel" where
  "resetNavigation s = setHighlightedMenuId [] s"

definition navigateToFirstMenu :: "NavigableAppMenuModel \<Rightarrow> NavigableAppMenuModel" where
  "navigateToFirstMenu s = setHighlightedMenuId (item_id (item (items s) 0)) s"

definition saveMUNavigationSystemState :: "NavigableAppMenuModel \<Rightarrow> NavigableAppMenuModel" where
  "saveMUNavigationSystemState s =
     (if \<not> nc_isHighlight (navigationController s) then s
      else (case nc_activeControl (navigationController s) of
              None \<Rightarrow> s
            | Some activeControl \<Rightarrow>
                emit (SetActive activeControl False)
                  (s\<lparr>m_lastActiveNavigationControl := Some activeControl\<rparr>)))"

definition restoreMUNavigationSystemState :: "NavigableAppMenuModel \<Rightarrow> NavigableAppMenuModel" where
  "restoreMUNavigationSystemState s =
     (case m_lastActiveNavigationControl s of
        None \<Rightarrow> s
      | Some c \<Rightarrow> emit (RequestActive c) s)"

definition activateHighlightedMenu :: "NavigableAppMenuModel \<Rightarrow> NavigableAppMenuModel" where
  "activateHighlightedMenu s =
     emit (Dispatch ''nav-first-control'') (emit (OpenMenu (m_highlightedMenuId s)) s)"

text \<open>\<^verbatim>\<open>navigate(int scanCode)\<close>\<close>

definition navigate :: "int \<Rightarrow> NavigableAppMenuModel \<Rightarrow> NavigableAppMenuModel" where
  "navigate scanCode s =
     (if scanCode = Key_Left then
        (let newIndex = itemIndex (items s) (m_highlightedMenuId s) - 1;
             newIndex = (if newIndex < 0 then rowCount (items s) - 1 else newIndex)
         in setHighlightedMenuId (item_id (item (items s) newIndex)) s)
      else if scanCode = Key_Right then
        (let newIndex = itemIndex (items s) (m_highlightedMenuId s) + 1;
             newIndex = (if newIndex > rowCount (items s) - 1 then 0 else newIndex)
         in setHighlightedMenuId (item_id (item (items s) newIndex)) s)
      else if scanCode = Key_Down \<or> scanCode = Key_Space \<or> scanCode = Key_Return then
        activateHighlightedMenu s
      else if scanCode = Key_Escape then
        restoreMUNavigationSystemState (resetNavigation s)
      else s)"

text \<open>\<^verbatim>\<open>navigate(const QSet<int>&)\<close>\<close>

definition navigate_keys :: "Env \<Rightarrow> int set \<Rightarrow> NavigableAppMenuModel \<Rightarrow> error + NavigableAppMenuModel" where
  "navigate_keys env activatePossibleKeys s =
     (let s1 = saveMUNavigationSystemState s
      in case menuItemId env (items s1) activatePossibleKeys of
           Inl e \<Rightarrow> Inl e
         | Inr r \<Rightarrow> Inr (activateHighlightedMenu (setHighlightedMenuId r s1)))"

definition navigateToSubItem ::
  "Env \<Rightarrow> QString \<Rightarrow> int set \<Rightarrow> NavigableAppMenuModel \<Rightarrow> error + NavigableAppMenuModel" where
  "navigateToSubItem env menuId activatePossibleKeys s =
     (let menuItem = findMenu (items s) menuId
      in case menuItemId env (subitems menuItem) activatePossibleKeys of
           Inl e \<Rightarrow> Inl e
         | Inr r \<Rightarrow>
            (let subItem = findItem (items s) r
             in if \<not> isValid subItem then Inr s
                else (case nc_activeSection (navigationController s) of
                        None \<Rightarrow> Inr s
                      | Some section \<Rightarrow>
                         (case nc_activePanel (navigationController s) of
                            None \<Rightarrow> Inr s
                          | Some panel \<Rightarrow>
                             (let s1 = emit (RequestActivateByName section panel (item_id subItem))
                                         (s\<lparr>navigationController :=
                                              afterRequestActivateByName env (navigationController s)
                                                section panel (item_id subItem)\<rparr>)
                              in case nc_activeControl (navigationController s1) of
                                   None \<Rightarrow> Inr s1
                                 | Some control \<Rightarrow>
                                     if subitems subItem \<noteq> [] then Inr (emit (Trigger control) s1)
                                     else Inr s1)))))"

subsection \<open>The event filter\<close>

text \<open>Each handler returns its verdict, the event as it leaves the handler (its accepted
  flag and its modifiers can change) and the new state.\<close>

type_synonym outcome = "error + (bool \<times> QEvent \<times> NavigableAppMenuModel)"

definition processEventForOpenedMenu :: "Env \<Rightarrow> NavigableAppMenuModel \<Rightarrow> QEvent \<Rightarrow> outcome" where
  "processEventForOpenedMenu env s event =
     (if ev_type event \<noteq> ShortcutOverride then Inr (False, event, s)
      else (case ev_key event of
              None \<Rightarrow> Inl NullPointerDereference
            | Some keyEvent \<Rightarrow>
               (let isNavigationWithSymbol =
                      (ke_modifiers keyEvent = {} \<and> length (ke_text keyEvent) = 1)
                in if \<not> isNavigationWithSymbol then Inr (False, event, s)
                   else (let (corrected, activatePossibleKeys) =
                               possibleKeys_event env (ev_type event) keyEvent;
                             event1 = event\<lparr>ev_key := Some corrected\<rparr>
                         in case hasSubItem env s (m_openedMenuId s) activatePossibleKeys of
                              Inl e \<Rightarrow> Inl e
                            | Inr found \<Rightarrow>
                               if found then
                                 (case navigateToSubItem env (m_openedMenuId s) activatePossibleKeys s of
                                    Inl e \<Rightarrow> Inl e
                                  | Inr s1 \<Rightarrow> Inr (True, event1\<lparr>ev_accepted := True\<rparr>, s1))
                               else Inr (False, event1, s)))))"

definition processEventForAppMenu :: "Env \<Rightarrow> NavigableAppMenuModel \<Rightarrow> QEvent \<Rightarrow> outcome" where
  "processEventForAppMenu env s event =
     (case ev_key event of
        None \<Rightarrow> Inr (False, event, s)
      | Some keyEvent \<Rightarrow>
         (let modifiers = ke_modifiers keyEvent;
              key = ke_key keyEvent;
              isSingleSymbol = (length (ke_text keyEvent) = 1);
              isNavigationStarted = isNavigationStarted s;
              isNavigationWithSymbol = (modifiers = {} \<and> isSingleSymbol \<and> isNavigationStarted);
              isNavigationWithAlt =
                (AltModifier \<in> modifiers \<and> ShiftModifier \<notin> modifiers \<and> isSingleSymbol);
              isAltKey = (key = Key_Alt \<and> key \<noteq> Key_Shift \<and> ShiftModifier \<notin> modifiers)
          in case ev_type event of
               ShortcutOverride \<Rightarrow>
                 if isNavigationStarted \<and> isNavigateKey key then
                   Inr (True, event\<lparr>ev_accepted := True\<rparr>, s)
                 else if isNavigationWithSymbol \<or> isNavigationWithAlt then
                   (let (corrected, activatePossibleKeys) =
                          possibleKeys_event env (ev_type event) keyEvent;
                        event1 = event\<lparr>ev_key := Some corrected\<rparr>
                    in case hasItem env s activatePossibleKeys of
                         Inl e \<Rightarrow> Inl e
                       | Inr found \<Rightarrow>
                          if found then Inr (True, event1\<lparr>ev_accepted := True\<rparr>, s)
                          else Inr (False, event1, s))
                 else Inr (False, event, s)
             | KeyPress \<Rightarrow>
                 if isAltKey then Inr (False, event, s\<lparr>m_needActivateHighlight := True\<rparr>)
                 else if isNavigationStarted \<and> isNavigateKey key then
                   Inr (True, event\<lparr>ev_accepted := True\<rparr>,
                        (navigate key s)\<lparr>m_needActivateHighlight := False\<rparr>)
                 else if isNavigationWithSymbol \<or> isNavigationWithAlt then
                   (let (corrected, activatePossibleKeys) =
                          possibleKeys_event env (ev_type event) keyEvent;
                        event1 = event\<lparr>ev_key := Some corrected\<rparr>
                    in case hasItem env s activatePossibleKeys of
                         Inl e \<Rightarrow> Inl e
                       | Inr found \<Rightarrow>
                          if found then
                            (case navigate_keys env activatePossibleKeys s of
                               Inl e \<Rightarrow> Inl e
                             | Inr s1 \<Rightarrow>
                                 Inr (True, event1\<lparr>ev_accepted := True\<rparr>,
                                      s1\<lparr>m_needActivateHighlight := True\<rparr>))
                          else Inr (False, event1, s))
                 else Inr (False, event, s)
             | KeyRelease \<Rightarrow>
                 if \<not> isAltKey then Inr (False, event, s)
                 else if isNavigationStarted then
                   Inr (False, event, restoreMUNavigationSystemState (resetNavigation s))
                 else if m_needActivateHighlight s then
                   Inr (False, event, navigateToFirstMenu (saveMUNavigationSystemState s))
                 else Inr (False, event, s\<lparr>m_needActivateHighlight := True\<rparr>)
             | MouseButtonPress \<Rightarrow> Inr (False, event, resetNavigation s)
             | OtherEventType \<Rightarrow> Inr (False, event, s)))"

definition eventFilter ::
  "Env \<Rightarrow> NavigableAppMenuModel \<Rightarrow> QObject option \<Rightarrow> QEvent \<Rightarrow> outcome" where
  "eventFilter env s watched event =
     (let isMenuOpened = (m_openedMenuId s \<noteq> [])
      in if isMenuOpened \<and> (case watched of None \<Rightarrow> False | Some w \<Rightarrow> obj_isWindowType w) then
           processEventForOpenedMenu env s event
         else if watched = m_appWindow s then
           (case processEventForAppMenu env s event of
              Inl e \<Rightarrow> Inl e
            | Inr (ok, event1, s1) \<Rightarrow>
                if ok then Inr (ok, event1, s1)
                else Inr (base_eventFilter env watched event1, event1, s1))
         else Inr (base_eventFilter env watched event, event, s))"

subsection \<open>Event sequences and observations\<close>

text \<open>The host delivers events one after the other; an error stops the run.\<close>

definition deliverAppMenu ::
  "Env \<Rightarrow> QEvent \<Rightarrow> error + NavigableAppMenuModel \<Rightarrow> error + NavigableAppMenuModel" where
  "deliverAppMenu env event r =
     (case r of
        Inl e \<Rightarrow> Inl e
      | Inr s \<Rightarrow>
         (case processEventForAppMenu env s event of
            Inl e \<Rightarrow> Inl e
          | Inr (handled, event1, s1) \<Rightarrow> Inr s1))"

text \<open>What an operation added to the log.\<close>

definition newEffects :: "NavigableAppMenuModel \<Rightarrow> NavigableAppMenuModel \<Rightarrow> Effect list" where
  "newEffects s s1 = drop (length (emitted s)) (emitted s1)"

text \<open>The two effects of \<^verbatim>\<open>activateHighlightedMenu\<close>, and the effect of
  \<^verbatim>\<open>restoreMUNavigationSystemState\<close>.\<close>

fun isActivation :: "Effect \<Rightarrow> bool" where
  "isActivation (OpenMenu m) = True"
| "isActivation (Dispatch a) = True"
| "isActivation e = False"

fun isRestoreRequest :: "Effect \<Rightarrow> bool" where
  "isRestoreRequest (RequestActive c) = True"
| "isRestoreRequest e = False"

subsection \<open>Mnemonic matching as the specification words it\<close>

text \<open>The mnemonic of a title is the character right after its first marker \<open>&\<close>;
  a title without a marker, or with nothing after its first marker, has none.\<close>

definition mnemonic :: "QString \<Rightarrow> QChar option" where
  "mnemonic t =
     (case dropWhile (\<lambda>c. c \<noteq> ampersand) t of
        m # c # rest \<Rightarrow> Some c
      | _ \<Rightarrow> None)"

text \<open>The data model's titles: a marker, when there is one, immediately precedes the
  mnemonic letter, so the first marker is not the last character.\<close>

definition markerFollowed :: "QString \<Rightarrow> bool" where
  "markerFollowed t = (dropWhile (\<lambda>c. c \<noteq> ampersand) t \<noteq> [ampersand])"

text \<open>An item matches when the key codes of its uppercased mnemonic and the key codes
  of the event have a common element.\<close>

definition mnemonicMatches :: "Env \<Rightarrow> int set \<Rightarrow> MenuItem \<Rightarrow> bool" where
  "mnemonicMatches env keys it =
     (case mnemonic (title it) of
        None \<Rightarrow> False
      | Some c \<Rightarrow> possibleKeys_char env (QChar_toUpper env c) \<inter> keys \<noteq> {})"

text \<open>The first matching item in the declared order wins; the empty identifier when
  no item matches.\<close>

definition firstMatchId :: "Env \<Rightarrow> MenuItem list \<Rightarrow> int set \<Rightarrow> QString" where
  "firstMatchId env its keys =
     (case find (mnemonicMatches env keys) its of None \<Rightarrow> [] | Some it \<Rightarrow> item_id it)"

subsection \<open>A concrete menu bar\<close>

text \<open>A key mapper for the concrete scenarios, after the fallback of
  \<^verbatim>\<open>QKeyMapper::possibleKeys\<close> for an event without a native scan code: the key
  code when the event has one, else the code point of its text; the Alt bit is added
  when Alt is held.\<close>

definition sample_possibleKeys :: "EventType \<Rightarrow> QKeyEvent \<Rightarrow> int list" where
  "sample_possibleKeys t ke =
     (let m = (if AltModifier \<in> ke_modifiers ke then 134217728 else 0)
      in if ke_key ke \<noteq> 0 \<and> ke_key ke \<noteq> Key_unknown then [ke_key ke + m]
         else (case ke_text ke of [] \<Rightarrow> [] | c # cs \<Rightarrow> [uint c + m]))"

text \<open>An uppercasing for the concrete scenarios: the letters \<open>a\<close> to \<open>z\<close>.\<close>

definition sample_toUpper :: "QChar \<Rightarrow> QChar" where
  "sample_toUpper c = (if 97 \<le> c \<and> c \<le> 122 then c - 32 else c)"

definition sample_env :: Env where
  "sample_env =
     \<lparr>QKeyMapper_possibleKeys = sample_possibleKeys,
      QChar_toUpper = sample_toUpper,
      afterRequestActivateByName = (\<lambda>nc section panel name. nc\<lparr>nc_activeControl := Some 5\<rparr>),
      base_eventFilter = (\<lambda>watched event. False)\<rparr>"

definition fileMenu :: MenuItem where
  "fileMenu =
     MenuItem (QStr ''file'') (QStr ''&File'')
       [MenuItem (QStr ''file-save'') (QStr ''&Save'') [],
        MenuItem (QStr ''file-recent'') (QStr ''Open &Recent'') [MenuItem (QStr ''recent-1'') (QStr ''score.mscz'') []]]"

definition menuBar :: "MenuItem list" where
  "menuBar = [fileMenu, MenuItem (QStr ''edit'') (QStr ''&Edit'') [], MenuItem (QStr ''help'') (QStr ''&Help'') []]"

text \<open>A menu bar whose identifiers are unique among siblings only: the top-level menu
  \<open>x\<close> and the leaf \<open>x\<close> under \<open>File\<close>.\<close>

definition clashBar :: "MenuItem list" where
  "clashBar =
     [MenuItem (QStr ''x'') (QStr ''&X'') [MenuItem (QStr ''x-1'') (QStr ''One'') []],
      MenuItem (QStr ''file'') (QStr ''&File'') [MenuItem (QStr ''x'') (QStr ''&Save'') []]]"

definition mainWindow :: QObject where
  "mainWindow = \<lparr>obj_addr = 1, obj_isWindowType = True\<rparr>"

definition idle :: NavigableAppMenuModel where
  "idle =
     \<lparr>items = menuBar,
      m_highlightedMenuId = [],
      m_openedMenuId = [],
      m_needActivateHighlight = True,
      m_lastActiveNavigationControl = None,
      m_appWindow = Some mainWindow,
      navigationController =
        \<lparr>nc_isHighlight = True, nc_activeSection = Some (QStr ''AppMenu''),
         nc_activePanel = Some (QStr ''MenuPanel''), nc_activeControl = Some 3\<rparr>,
      emitted = []\<rparr>"

definition keyEvent :: "EventType \<Rightarrow> int \<Rightarrow> KeyboardModifiers \<Rightarrow> QString \<Rightarrow> QEvent" where
  "keyEvent t k m txt =
     \<lparr>ev_type = t, ev_accepted = False,
      ev_key = Some \<lparr>ke_key = k, ke_modifiers = m, ke_text = txt\<rparr>\<rparr>"

definition mouseEvent :: "EventType \<Rightarrow> QEvent" where
  "mouseEvent t = \<lparr>ev_type = t, ev_accepted = False, ev_key = None\<rparr>"

section \<open>Properties\<close>

lemmas Key_defs =
  Key_Space_def Key_Escape_def Key_Return_def Key_Left_def Key_Right_def Key_Down_def
  Key_Shift_def Key_Alt_def Key_unknown_def

lemmas qstr_defs = QStr_def latin1_def ampersand_def

lemmas fixture_defs = sample_env_def sample_possibleKeys_def sample_toUpper_def fileMenu_def
  menuBar_def mainWindow_def idle_def keyEvent_def mouseEvent_def qstr_defs

lemmas action_defs = setHighlightedMenuId_def emit_def resetNavigation_def navigateToFirstMenu_def
  saveMUNavigationSystemState_def restoreMUNavigationSystemState_def activateHighlightedMenu_def
  item_def rowCount_def dummy_def

subsection \<open>Basic facts about the operations\<close>

lemma sample_env_toUpper [simp]: "QChar_toUpper sample_env c = sample_toUpper c"
  by (simp add: sample_env_def)

lemma highlighted_set [simp]: "m_highlightedMenuId (setHighlightedMenuId h s) = h"
  by (simp add: setHighlightedMenuId_def emit_def)

lemma highlighted_save [simp]:
  "m_highlightedMenuId (saveMUNavigationSystemState s) = m_highlightedMenuId s"
  by (simp add: saveMUNavigationSystemState_def emit_def split: option.splits)

lemma items_save [simp]: "items (saveMUNavigationSystemState s) = items s"
  by (simp add: saveMUNavigationSystemState_def emit_def split: option.splits)

lemma activations_save:
  "filter isActivation (emitted (saveMUNavigationSystemState s)) = filter isActivation (emitted s)"
  by (simp add: saveMUNavigationSystemState_def emit_def split: option.splits)

text \<open>An event for the application window that \<^verbatim>\<open>processEventForAppMenu\<close>
  handles is handled by \<^verbatim>\<open>eventFilter\<close> with the same result, unless a menu is open
  and the window is of window type.\<close>

lemma eventFilter_app_window:
  assumes "watched = m_appWindow s"
    and "m_openedMenuId s = [] \<or> (case watched of None \<Rightarrow> True | Some w \<Rightarrow> \<not> obj_isWindowType w)"
    and "processEventForAppMenu env s event = Inr (True, event1, s1)"
  shows "eventFilter env s watched event = Inr (True, event1, s1)"
  using assms by (auto simp: eventFilter_def Let_def split: option.splits)

subsection \<open>An isolated Alt tap\<close>

text \<open>
  Claim C1. With the menu bar \<open>[File, Edit, Help]\<close> and no session, a bare Alt press
  followed by a bare Alt release is said to highlight \<open>File\<close> and to fire the activation
  (the open-menu notification and the dispatch of \<open>nav-first-control\<close>) once.
  The code highlights the first item and stops there: the release branch calls
  \<^verbatim>\<open>saveMUNavigationSystemState\<close> and \<^verbatim>\<open>navigateToFirstMenu\<close>, and neither
  calls \<^verbatim>\<open>activateHighlightedMenu\<close>. The theorem states it for every non-empty menu
  bar: the highlight becomes the first item's identifier and the log gains no activation
  effect.
\<close>

theorem alt_tap_highlights_first:
  assumes idle: "m_highlightedMenuId s = []"
    and menu: "items s = first # others"
    and press: "ev_type press = KeyPress" "ev_key press = Some kp"
               "ke_key kp = Key_Alt" "ShiftModifier \<notin> ke_modifiers kp"
    and release: "ev_type release = KeyRelease" "ev_key release = Some kr"
               "ke_key kr = Key_Alt" "ShiftModifier \<notin> ke_modifiers kr"
  shows "\<exists>s2. deliverAppMenu env release (deliverAppMenu env press (Inr s)) = Inr s2
              \<and> m_highlightedMenuId s2 = item_id first
              \<and> filter isActivation (emitted s2) = filter isActivation (emitted s)"
proof -
  let ?s1 = "s\<lparr>m_needActivateHighlight := True\<rparr>"
  have p: "deliverAppMenu env press (Inr s) = Inr ?s1"
    using press by (simp add: deliverAppMenu_def processEventForAppMenu_def Let_def Key_defs)
  let ?s2 = "navigateToFirstMenu (saveMUNavigationSystemState ?s1)"
  have r: "deliverAppMenu env release (Inr ?s1) = Inr ?s2"
    using release idle
    by (simp add: deliverAppMenu_def processEventForAppMenu_def Let_def Key_defs
          isNavigationStarted_def)
  have h: "m_highlightedMenuId ?s2 = item_id first"
    using menu by (simp add: navigateToFirstMenu_def item_def)
  have e: "filter isActivation (emitted ?s2) = filter isActivation (emitted s)"
    using activations_save [of ?s1]
    by (simp add: navigateToFirstMenu_def setHighlightedMenuId_def emit_def)
  show ?thesis using p r h e by simp
qed

theorem alt_tap_highlights_first_witness:
  "\<exists>s2. deliverAppMenu sample_env (keyEvent KeyRelease Key_Alt {} [])
           (deliverAppMenu sample_env (keyEvent KeyPress Key_Alt {AltModifier} []) (Inr idle))
         = Inr s2
        \<and> m_highlightedMenuId s2 = (QStr ''file'')
        \<and> filter isActivation (emitted s2) = []"
  using alt_tap_highlights_first
    [of idle fileMenu "[MenuItem (QStr ''edit'') (QStr ''&Edit'') [], MenuItem (QStr ''help'') (QStr ''&Help'') []]"
        "keyEvent KeyPress Key_Alt {AltModifier} []"
        "\<lparr>ke_key = Key_Alt, ke_modifiers = {AltModifier}, ke_text = []\<rparr>"
        "keyEvent KeyRelease Key_Alt {} []"
        "\<lparr>ke_key = Key_Alt, ke_modifiers = {}, ke_text = []\<rparr>" sample_env]
  by (simp add: idle_def menuBar_def keyEvent_def fileMenu_def)

text \<open>The scenario of the claim, run: the log holds the deactivation of the saved
  control and the change of the highlight, and neither \<open>OpenMenu\<close> nor \<open>Dispatch\<close>.\<close>

theorem alt_tap_counterexample:
  "deliverAppMenu sample_env (keyEvent KeyRelease Key_Alt {} [])
     (deliverAppMenu sample_env (keyEvent KeyPress Key_Alt {AltModifier} []) (Inr idle))
   = Inr (idle\<lparr>m_highlightedMenuId := (QStr ''file''), m_lastActiveNavigationControl := Some 3,
                emitted := [SetActive 3 False, HighlightedMenuIdChanged (QStr ''file'')]\<rparr>)"
  by (simp add: deliverAppMenu_def processEventForAppMenu_def isNavigationStarted_def Let_def
        action_defs fixture_defs Key_defs)

subsection \<open>Ending a session twice\<close>

text \<open>
  Claim C2. Ending the session and restoring, twice in a row, is said to leave the
  highlight empty and to request the saved control's activation at most once, the first
  call having cleared the saved reference. The code is \<^verbatim>\<open>resetNavigation()\<close> followed
  by \<^verbatim>\<open>restoreMUNavigationSystemState()\<close>, as the Escape branch of
  \<^verbatim>\<open>navigate(int)\<close> runs them. Nothing in the file clears
  \<^verbatim>\<open>m_lastActiveNavigationControl\<close>: the highlight is empty after both calls, the
  saved reference is kept, and each call issues the request when a control is saved.
\<close>

theorem end_session_twice:
  "m_highlightedMenuId (navigate Key_Escape (navigate Key_Escape s)) = []
   \<and> m_lastActiveNavigationControl (navigate Key_Escape (navigate Key_Escape s))
       = m_lastActiveNavigationControl s
   \<and> filter isRestoreRequest (newEffects s (navigate Key_Escape (navigate Key_Escape s)))
       = (case m_lastActiveNavigationControl s of
            None \<Rightarrow> []
          | Some c \<Rightarrow> [RequestActive c, RequestActive c])"
  by (simp add: navigate_def action_defs Key_defs newEffects_def split: option.splits)

theorem end_session_twice_witness:
  "filter isRestoreRequest
     (newEffects (idle\<lparr>m_highlightedMenuId := (QStr ''edit''), m_lastActiveNavigationControl := Some 3\<rparr>)
        (navigate Key_Escape (navigate Key_Escape
           (idle\<lparr>m_highlightedMenuId := (QStr ''edit''), m_lastActiveNavigationControl := Some 3\<rparr>))))
   = [RequestActive 3, RequestActive 3]"
  using end_session_twice
    [of "idle\<lparr>m_highlightedMenuId := (QStr ''edit''), m_lastActiveNavigationControl := Some 3\<rparr>"]
  by (simp add: idle_def)

theorem end_session_twice_counterexample:
  "navigate Key_Escape (navigate Key_Escape
      (idle\<lparr>m_highlightedMenuId := (QStr ''edit''), m_lastActiveNavigationControl := Some 3\<rparr>))
   = idle\<lparr>m_highlightedMenuId := [], m_lastActiveNavigationControl := Some 3,
          emitted := [HighlightedMenuIdChanged [], RequestActive 3, RequestActive 3]\<rparr>"
  by (simp add: navigate_def action_defs fixture_defs Key_defs)

subsection \<open>Moving the highlight\<close>

lemma itemIndex_distinct:
  "distinct (map item_id ms) \<Longrightarrow> i < length ms \<Longrightarrow> itemIndex ms (item_id (ms ! i)) = int i"
proof (induction ms arbitrary: i)
  case Nil
  then show ?case by simp
next
  case (Cons m ms)
  show ?case
  proof (cases i)
    case 0
    then show ?thesis by simp
  next
    case (Suc j)
    with Cons.prems have j: "j < length ms" and d: "distinct (map item_id ms)"
      and ne: "item_id m \<noteq> item_id (ms ! j)"
      by auto
    from Cons.IH [OF d j] Suc ne show ?thesis by (simp add: Let_def)
  qed
qed

lemma navigate_Right_index:
  assumes "itemIndex (items s) (m_highlightedMenuId s) = int i" "i < length (items s)"
  shows "m_highlightedMenuId (navigate Key_Right s)
         = item_id (items s ! ((i + 1) mod length (items s)))"
proof (cases "i + 1 = length (items s)")
  case True
  then have "items s \<noteq> []" by auto
  with True show ?thesis using assms
    by (simp add: navigate_def Key_defs Let_def rowCount_def item_def)
next
  case False
  with assms have "i + 1 < length (items s)" by simp
  then show ?thesis using assms
    by (simp add: navigate_def Key_defs Let_def rowCount_def item_def nat_add_distrib)
qed

lemma navigate_Left_index:
  assumes "itemIndex (items s) (m_highlightedMenuId s) = int i" "i < length (items s)"
  shows "m_highlightedMenuId (navigate Key_Left s)
         = item_id (items s ! ((i + length (items s) - 1) mod length (items s)))"
proof (cases i)
  case 0
  have "nat (int (length (items s)) - 1) = length (items s) - 1" by arith
  with 0 show ?thesis using assms
    by (simp add: navigate_def Key_defs Let_def rowCount_def item_def)
next
  case (Suc j)
  then have "(i + length (items s) - 1) mod length (items s) = j"
    using assms by simp
  then show ?thesis using assms Suc
    by (simp add: navigate_def Key_defs Let_def rowCount_def item_def)
qed

text \<open>A committed press of a navigation key during a session runs \<^verbatim>\<open>navigate(key)\<close>,
  clears the Alt flag and consumes the event.\<close>

lemma navigation_key_press:
  assumes "m_highlightedMenuId s \<noteq> []" "ev_type event = KeyPress" "ev_key event = Some ke"
    and "isNavigateKey (ke_key ke)"
  shows "processEventForAppMenu env s event
         = Inr (True, event\<lparr>ev_accepted := True\<rparr>,
                (navigate (ke_key ke) s)\<lparr>m_needActivateHighlight := False\<rparr>)"
proof -
  have "ke_key ke \<noteq> Key_Alt"
    using assms(4) by (auto simp: isNavigateKey_def Key_defs)
  then show ?thesis
    using assms by (simp add: processEventForAppMenu_def Let_def isNavigationStarted_def)
qed

text \<open>
  Claim C3. With \<open>n\<close> top-level items (their identifiers distinct) and the highlight on
  the item at index \<open>i\<close>, \<^verbatim>\<open>navigate(Qt::Key_Right)\<close> moves the highlight to the item
  at index \<open>(i + 1) mod n\<close> and \<^verbatim>\<open>navigate(Qt::Key_Left)\<close> to the item at index
  \<open>(i - 1) mod n\<close>, written \<open>(i + n - 1) mod n\<close> on the naturals: from the last index
  Next wraps to \<open>0\<close>, from index \<open>0\<close> Previous wraps to the last.
\<close>

theorem move_wraps:
  assumes "distinct (map item_id (items s))"
    and "i < length (items s)"
    and "m_highlightedMenuId s = item_id (items s ! i)"
  shows "m_highlightedMenuId (navigate Key_Right s)
           = item_id (items s ! ((i + 1) mod length (items s)))
       \<and> m_highlightedMenuId (navigate Key_Left s)
           = item_id (items s ! ((i + length (items s) - 1) mod length (items s)))"
  using assms navigate_Right_index [of s i] navigate_Left_index [of s i]
    itemIndex_distinct [of "items s" i]
  by simp

theorem move_wraps_witness:
  "m_highlightedMenuId (navigate Key_Right (idle\<lparr>m_highlightedMenuId := (QStr ''help'')\<rparr>)) = (QStr ''file'')
   \<and> m_highlightedMenuId (navigate Key_Left (idle\<lparr>m_highlightedMenuId := (QStr ''help'')\<rparr>)) = (QStr ''edit'')"
  using move_wraps [of "idle\<lparr>m_highlightedMenuId := (QStr ''help'')\<rparr>" 2]
  by (simp add: idle_def menuBar_def fileMenu_def qstr_defs)

subsection \<open>Escape\<close>

text \<open>
  Claim C7. In every state with a session (\<^verbatim>\<open>m_highlightedMenuId\<close> not empty), a
  committed press of Escape reaching \<^verbatim>\<open>processEventForAppMenu\<close> is consumed and ends
  the session: the highlight becomes empty, its change is notified, and when a control
  was saved its activation is requested.
\<close>

theorem escape_ends_session:
  assumes "m_highlightedMenuId s \<noteq> []"
    and "ev_type event = KeyPress" "ev_key event = Some ke" "ke_key ke = Key_Escape"
  shows "\<exists>s1. processEventForAppMenu env s event = Inr (True, event\<lparr>ev_accepted := True\<rparr>, s1)
             \<and> m_highlightedMenuId s1 = []
             \<and> newEffects s s1 =
                 HighlightedMenuIdChanged [] #
                 (case m_lastActiveNavigationControl s of
                    None \<Rightarrow> []
                  | Some c \<Rightarrow> [RequestActive c])"
  using assms
  by (simp add: processEventForAppMenu_def Let_def isNavigationStarted_def isNavigateKey_def
        navigate_def action_defs Key_defs newEffects_def split: option.splits)

theorem escape_ends_session_witness:
  "\<exists>s1. processEventForAppMenu sample_env
           (idle\<lparr>m_highlightedMenuId := (QStr ''edit''), m_lastActiveNavigationControl := Some 3\<rparr>)
           (keyEvent KeyPress Key_Escape {} [])
         = Inr (True, (keyEvent KeyPress Key_Escape {} [])\<lparr>ev_accepted := True\<rparr>, s1)
        \<and> m_highlightedMenuId s1 = []
        \<and> newEffects (idle\<lparr>m_highlightedMenuId := (QStr ''edit''), m_lastActiveNavigationControl := Some 3\<rparr>) s1
          = [HighlightedMenuIdChanged [], RequestActive 3]"
  using escape_ends_session
    [of "idle\<lparr>m_highlightedMenuId := (QStr ''edit''), m_lastActiveNavigationControl := Some 3\<rparr>"
        "keyEvent KeyPress Key_Escape {} []"
        "\<lparr>ke_key = Key_Escape, ke_modifiers = {}, ke_text = []\<rparr>" sample_env]
  by (simp add: idle_def keyEvent_def qstr_defs)

subsection \<open>Pointer press\<close>

text \<open>
  Claim C8. A pointer press is said to clear the highlight in every state. The switch of
  \<^verbatim>\<open>processEventForAppMenu\<close> has a \<^verbatim>\<open>MouseButtonPress\<close> case that calls
  \<^verbatim>\<open>resetNavigation()\<close>, but the function returns before the switch when the event is
  not a \<^verbatim>\<open>QKeyEvent\<close>, and a pointer press is a \<^verbatim>\<open>QMouseEvent\<close>. With \<open>Edit\<close>
  highlighted, a pointer press on the application window leaves the state as it was,
  through \<^verbatim>\<open>processEventForAppMenu\<close> and through \<^verbatim>\<open>eventFilter\<close>.
\<close>

theorem pointer_press_keeps_highlight:
  "processEventForAppMenu sample_env (idle\<lparr>m_highlightedMenuId := (QStr ''edit'')\<rparr>)
     (mouseEvent MouseButtonPress)
   = Inr (False, mouseEvent MouseButtonPress, idle\<lparr>m_highlightedMenuId := (QStr ''edit'')\<rparr>)
   \<and> eventFilter sample_env (idle\<lparr>m_highlightedMenuId := (QStr ''edit'')\<rparr>) (Some mainWindow)
       (mouseEvent MouseButtonPress)
     = Inr (False, mouseEvent MouseButtonPress, idle\<lparr>m_highlightedMenuId := (QStr ''edit'')\<rparr>)"
  by (simp add: processEventForAppMenu_def eventFilter_def fixture_defs)

subsection \<open>Mnemonic matching\<close>

lemma indexOf_takeWhile:
  "indexOf t c = (if c \<in> set t then int (length (takeWhile (\<lambda>x. x \<noteq> c) t)) else - 1)"
  by (induction t) (auto simp: Let_def)

lemma dropWhile_marker:
  "c \<in> set t \<Longrightarrow> \<exists>rest. dropWhile (\<lambda>x. x \<noteq> c) t = c # rest"
  by (induction t) auto

lemma charAt_after_marker:
  assumes "dropWhile (\<lambda>x. x \<noteq> c) t = c # rest"
  shows "charAt t (int (length (takeWhile (\<lambda>x. x \<noteq> c) t)) + 1)
         = (case rest of [] \<Rightarrow> Inr 0 | x # xs \<Rightarrow> Inr x)"
proof -
  let ?tw = "takeWhile (\<lambda>x. x \<noteq> c) t"
  have t: "t = ?tw @ c # rest" using assms takeWhile_dropWhile_id [of "\<lambda>x. x \<noteq> c" t] by simp
  have n: "nat (int (length ?tw) + 1) = Suc (length ?tw)" by simp
  have len: "length t = length ?tw + Suc (length rest)" using arg_cong [OF t, of length] by simp
  have nth: "rest \<noteq> [] \<Longrightarrow> t ! Suc (length ?tw) = hd rest"
    using arg_cong [OF t, of "\<lambda>l. l ! Suc (length ?tw)"] by (cases rest) (simp_all add: nth_append)
  show ?thesis
    using len nth n by (cases rest) (simp_all add: charAt_def)
qed

lemma menuItemId_step:
  assumes "markerFollowed (title it)"
  shows "menuItemId env (it # rest) keys
         = (if mnemonicMatches env keys it then Inr (item_id it) else menuItemId env rest keys)"
proof (cases "ampersand \<in> set (title it)")
  case False
  then have d: "dropWhile (\<lambda>c. c \<noteq> ampersand) (title it) = []" by auto
  have "\<not> mnemonicMatches env keys it"
    unfolding mnemonicMatches_def mnemonic_def d by simp
  with False show ?thesis
    by (simp add: indexOf_takeWhile)
next
  case True
  from dropWhile_marker [OF True]
  obtain r where r: "dropWhile (\<lambda>x. x \<noteq> ampersand) (title it) = ampersand # r" ..
  with assms obtain x xs where x: "r = x # xs"
    by (cases r) (auto simp: markerFollowed_def)
  have idx: "indexOf (title it) ampersand
             = int (length (takeWhile (\<lambda>x. x \<noteq> ampersand) (title it)))"
    using True by (simp add: indexOf_takeWhile)
  have ne: "indexOf (title it) ampersand \<noteq> - 1"
    unfolding idx by simp
  have ch: "charAt (title it) (indexOf (title it) ampersand + 1) = Inr x"
    unfolding idx using charAt_after_marker [OF r] by (simp add: x)
  have mn: "mnemonic (title it) = Some x"
    unfolding mnemonic_def r x by simp
  show ?thesis
    using ne ch mn by (simp add: Let_def mnemonicMatches_def intersects_def)
qed

lemma menuItemId_unmarked:
  "ampersand \<notin> set (title it) \<Longrightarrow> menuItemId env (it # rest) keys = menuItemId env rest keys"
  by (simp add: indexOf_takeWhile)

lemma matches_markerFollowed:
  "mnemonicMatches env keys it \<Longrightarrow> markerFollowed (title it)"
  by (auto simp: mnemonicMatches_def mnemonic_def markerFollowed_def split: option.splits list.splits)

lemma menuItemId_firstMatch:
  "\<forall>it \<in> set (takeWhile (\<lambda>it. \<not> mnemonicMatches env keys it) its). markerFollowed (title it) \<Longrightarrow>
   menuItemId env its keys = Inr (firstMatchId env its keys)"
proof (induction its)
  case Nil
  then show ?case by (simp add: firstMatchId_def)
next
  case (Cons a its)
  show ?case
  proof (cases "mnemonicMatches env keys a")
    case True
    then show ?thesis
      using matches_markerFollowed [OF True]
      by (simp add: menuItemId_step firstMatchId_def del: menuItemId.simps)
  next
    case False
    with Cons.prems have m: "markerFollowed (title a)"
      and r: "\<forall>it \<in> set (takeWhile (\<lambda>it. \<not> mnemonicMatches env keys it) its). markerFollowed (title it)"
      by simp_all
    from Cons.IH [OF r] False m show ?thesis
      by (simp add: menuItemId_step firstMatchId_def del: menuItemId.simps)
  qed
qed

lemma menuItemId_no_match:
  assumes "\<forall>it \<in> set its. markerFollowed (title it) \<and> \<not> mnemonicMatches env keys it"
  shows "menuItemId env its keys = Inr []"
proof -
  have "find (mnemonicMatches env keys) its = None"
    using assms by (simp add: find_None_iff)
  moreover have "\<forall>it \<in> set (takeWhile (\<lambda>it. \<not> mnemonicMatches env keys it) its). markerFollowed (title it)"
    using assms by (auto dest: set_takeWhileD)
  ultimately show ?thesis
    using menuItemId_firstMatch [of env keys its] by (simp add: firstMatchId_def)
qed

lemma unmarked_never_matches:
  assumes "ampersand \<notin> set (title it)"
  shows "\<not> mnemonicMatches env keys it"
proof -
  from assms have d: "dropWhile (\<lambda>c. c \<noteq> ampersand) (title it) = []" by auto
  show ?thesis unfolding mnemonicMatches_def mnemonic_def d by simp
qed

text \<open>
  Claim C5. \<^verbatim>\<open>menuItemId\<close> returns the identifier of the first item, in the order
  of the list, whose mnemonic (the character after the first \<open>&\<close> of its title,
  uppercased and resolved by the key mapper) shares a key code with the event's set, and
  the empty identifier when no item matches. An item without a marker never matches, and
  the loop skips it. The titles the loop inspects, those before the first match, are
  titles of the data model: a first marker is followed by a character.
\<close>

theorem mnemonic_first_match:
  assumes "\<forall>it \<in> set (takeWhile (\<lambda>it. \<not> mnemonicMatches env keys it) its).
             markerFollowed (title it)"
  shows "menuItemId env its keys = Inr (firstMatchId env its keys)
       \<and> (\<forall>it \<in> set its. ampersand \<notin> set (title it) \<longrightarrow> \<not> mnemonicMatches env keys it)
       \<and> (\<forall>it rest. ampersand \<notin> set (title it) \<longrightarrow>
             menuItemId env (it # rest) keys = menuItemId env rest keys)"
  using menuItemId_firstMatch [OF assms] menuItemId_unmarked unmarked_never_matches
  by blast

theorem mnemonic_first_match_witness:
  "menuItemId sample_env (MenuItem (QStr ''tools'') (QStr ''Tools'') [] # menuBar @ [MenuItem (QStr ''x'') (QStr ''Odd&'') []])
     {134217797} = Inr (QStr ''edit'')"
proof -
  let ?its = "MenuItem (QStr ''tools'') (QStr ''Tools'') [] # menuBar @ [MenuItem (QStr ''x'') (QStr ''Odd&'') []]"
  have k: "possibleKeys_char sample_env c = {uint c + 134217728}" for c
    by (simp add: possibleKeys_char_def sample_env_def sample_possibleKeys_def Key_defs)
  have h: "\<forall>it \<in> set (takeWhile (\<lambda>it. \<not> mnemonicMatches sample_env {134217797} it) ?its).
             markerFollowed (title it)"
    by (simp add: menuBar_def fileMenu_def markerFollowed_def mnemonicMatches_def mnemonic_def k
          sample_toUpper_def qstr_defs)
  have f: "firstMatchId sample_env ?its {134217797} = (QStr ''edit'')"
    by (simp add: menuBar_def fileMenu_def firstMatchId_def mnemonicMatches_def mnemonic_def k
          sample_toUpper_def qstr_defs)
  from mnemonic_first_match [OF h]
  have "menuItemId sample_env ?its {134217797} = Inr (firstMatchId sample_env ?its {134217797})"
    by (rule conjunct1)
  with f show ?thesis by simp
qed






subsection \<open>Navigation inside an opened menu\<close>

lemma lookup_id:
  "lookup_item m x = Some r \<Longrightarrow> item_id r = x"
  "lookup_items ms x = Some r \<Longrightarrow> item_id r = x"
  by (induction m x and ms x rule: lookup_item_lookup_items.induct)
     (auto split: if_splits option.splits)

lemma findItem_empty_invalid: "\<not> isValid (findItem ms [])"
  by (auto simp: findItem_def isValid_def dummy_def dest: lookup_id(2) split: option.splits)

lemma sample_keys_char:
  "possibleKeys_char sample_env c = {uint c + 134217728}"
  by (simp add: possibleKeys_char_def sample_env_def sample_possibleKeys_def Key_defs)

lemma sample_file_menu: "findMenu (items idle) (QStr ''file'') = fileMenu"
  by (simp add: findMenu_def idle_def menuBar_def fileMenu_def)

lemma sample_save_match:
  "menuItemId sample_env (subitems fileMenu) {134217811} = Inr (QStr ''file-save'')"
  by (simp add: fileMenu_def charAt_def sample_toUpper_def sample_keys_char intersects_def
          qstr_defs)

lemma sample_save_item: "findItem (items idle) (QStr ''file-save'') = MenuItem (QStr ''file-save'') (QStr ''&Save'') []"
  by (simp add: findItem_def idle_def menuBar_def fileMenu_def qstr_defs)

lemma sample_recent_match:
  "menuItemId sample_env (subitems fileMenu) {134217810} = Inr (QStr ''file-recent'')"
  by (simp add: fileMenu_def charAt_def sample_toUpper_def sample_keys_char intersects_def
          qstr_defs)

lemma sample_recent_item:
  "findItem (items idle) (QStr ''file-recent'')
   = MenuItem (QStr ''file-recent'') (QStr ''Open &Recent'') [MenuItem (QStr ''recent-1'') (QStr ''score.mscz'') []]"
  by (simp add: findItem_def idle_def menuBar_def fileMenu_def qstr_defs)

lemma navigateToSubItem_no_error:
  "menuItemId env (subitems (findMenu (items s) menuId)) keys = Inr r \<Longrightarrow>
   \<exists>s1. navigateToSubItem env menuId keys s = Inr s1"
  by (simp add: navigateToSubItem_def Let_def split: option.splits)

lemma find_append_cases:
  "find P (xs @ ys) = (case find P xs of Some x \<Rightarrow> Some x | None \<Rightarrow> find P ys)"
  by (induction xs) auto

lemma lookup_find:
  "lookup_item m x = find (\<lambda>a. item_id a = x) (allItems_of m)"
  "lookup_items ms x = find (\<lambda>a. item_id a = x) (allItems ms)"
  by (induction m x and ms x rule: lookup_item_lookup_items.induct)
     (auto simp: find_append_cases split: option.splits)

lemma self_in_allItems_of: "m \<in> set (allItems_of m)"
  by (cases m) simp

lemma set_subset_allItems: "set ms \<subseteq> set (allItems ms)"
  using self_in_allItems_of by (induction ms) auto

lemma subitems_in_allItems:
  "a \<in> set (allItems_of m) \<Longrightarrow> set (subitems a) \<subseteq> set (allItems_of m)"
  "a \<in> set (allItems ms) \<Longrightarrow> set (subitems a) \<subseteq> set (allItems ms)"
proof (induction m and ms rule: allItems_of_allItems.induct)
  case (1 i t subs)
  then show ?case using set_subset_allItems [of subs] by auto
next
  case 2
  then show ?case by simp
next
  case (3 m ms)
  then show ?case by auto
qed

lemma find_distinct:
  "distinct (map f xs) \<Longrightarrow> x \<in> set xs \<Longrightarrow> find (\<lambda>a. f a = f x) xs = Some x"
  by (induction xs) (auto simp: image_iff)

lemma menuItemId_result:
  "menuItemId env its keys = Inr r \<Longrightarrow> r \<noteq> [] \<Longrightarrow> \<exists>it \<in> set its. item_id it = r"
  by (induction its) (auto simp: Let_def split: if_splits sum.splits)

lemma find_in_set: "find P xs = Some x \<Longrightarrow> x \<in> set xs"
  by (induction xs) (auto split: if_splits)

lemma findMenu_in_allItems:
  assumes "subitems (findMenu ms x) \<noteq> []"
  shows "findMenu ms x \<in> set (allItems ms)"
proof (cases "lookup_items ms x")
  case None
  with assms show ?thesis by (simp add: findMenu_def dummy_def)
next
  case (Some a)
  then have "find (\<lambda>b. item_id b = x) (allItems ms) = Some a"
    by (simp add: lookup_find(2))
  from find_in_set [OF this] Some show ?thesis by (simp add: findMenu_def)
qed

text \<open>The subitem that matched is an item of the store, so the store resolves its
  identifier to an item with that identifier.\<close>

lemma matched_in_store:
  assumes "menuItemId env (subitems (findMenu ms menuId)) keys = Inr r" and "r \<noteq> []"
  shows "\<exists>sub \<in> set (subitems (findMenu ms menuId)). item_id sub = r \<and> sub \<in> set (allItems ms)"
proof -
  from menuItemId_result [OF assms]
  obtain sub where sub: "sub \<in> set (subitems (findMenu ms menuId))" "item_id sub = r" by blast
  then have "subitems (findMenu ms menuId) \<noteq> []" by auto
  from findMenu_in_allItems [OF this] subitems_in_allItems(2) sub(1)
  have "sub \<in> set (allItems ms)" by blast
  with sub show ?thesis by blast
qed

lemma matched_resolves:
  assumes "menuItemId env (subitems (findMenu ms menuId)) keys = Inr r" and "r \<noteq> []"
  shows "item_id (findItem ms r) = r"
proof -
  from matched_in_store [OF assms]
  obtain sub where "sub \<in> set (allItems ms)" "item_id sub = r" by blast
  then have "find (\<lambda>a. item_id a = r) (allItems ms) \<noteq> None"
    by (auto simp: find_None_iff)
  then obtain a where a: "lookup_items ms r = Some a"
    by (auto simp: lookup_find(2))
  with lookup_id(2) [OF a] show ?thesis by (simp add: findItem_def)
qed

lemma matched_unique:
  assumes "menuItemId env (subitems (findMenu ms menuId)) keys = Inr r" and "r \<noteq> []"
    and "distinct (map item_id (allItems ms))"
  shows "\<exists>sub \<in> set (subitems (findMenu ms menuId)). item_id sub = r \<and> findItem ms r = sub"
proof -
  from matched_in_store [OF assms(1,2)]
  obtain sub where sub: "sub \<in> set (subitems (findMenu ms menuId))" "item_id sub = r"
      "sub \<in> set (allItems ms)" by blast
  from find_distinct [OF assms(3) sub(3)] sub(2)
  have "findItem ms r = sub" by (simp add: findItem_def lookup_find(2))
  with sub show ?thesis by blast
qed

text \<open>
  Claim C6. Let \<open>r\<close> be the identifier \<^verbatim>\<open>menuItemId\<close> finds among the subitems of
  the menu. \<^verbatim>\<open>navigateToSubItem\<close> changes nothing when no subitem matches (\<open>r\<close> is
  empty), and nothing when the navigation controller has no active section or no active
  panel. Otherwise it requests the activation by name of \<open>r\<close> in the active section
  and panel, and then triggers the controller's active control only when there is one and
  the item that \<^verbatim>\<open>findItem\<close> resolves for \<open>r\<close> has subitems. The code looks the
  matched subitem up again by its identifier in the whole store: when the identifiers
  are unique over the whole store the resolved item is the matched subitem, and a
  matched leaf is focused and never triggered; with identifiers unique among siblings
  only, the resolved item can be another item with the same identifier.
\<close>

theorem navigateToSubItem_cases:
  assumes "menuItemId env (subitems (findMenu (items s) menuId)) keys = Inr r"
  shows "(r = [] \<longrightarrow> navigateToSubItem env menuId keys s = Inr s)
       \<and> (nc_activeSection (navigationController s) = None
            \<or> nc_activePanel (navigationController s) = None
          \<longrightarrow> navigateToSubItem env menuId keys s = Inr s)
       \<and> (r \<noteq> []
            \<and> nc_activeSection (navigationController s) = Some section
            \<and> nc_activePanel (navigationController s) = Some panel
          \<longrightarrow> (\<exists>s1. navigateToSubItem env menuId keys s = Inr s1
                  \<and> newEffects s s1 =
                      RequestActivateByName section panel r #
                      (case nc_activeControl
                              (afterRequestActivateByName env (navigationController s)
                                 section panel r) of
                         None \<Rightarrow> []
                       | Some control \<Rightarrow>
                           if subitems (findItem (items s) r) \<noteq> [] then [Trigger control]
                           else [])))
       \<and> (r \<noteq> [] \<and> distinct (map item_id (allItems (items s)))
          \<longrightarrow> (\<exists>sub \<in> set (subitems (findMenu (items s) menuId)).
                  item_id sub = r \<and> findItem (items s) r = sub))
       \<and> (r \<noteq> [] \<and> distinct (map item_id (allItems (items s)))
            \<and> nc_activeSection (navigationController s) = Some section
            \<and> nc_activePanel (navigationController s) = Some panel
          \<longrightarrow> (\<exists>sub \<in> set (subitems (findMenu (items s) menuId)).
                  item_id sub = r
                  \<and> (\<exists>s1. navigateToSubItem env menuId keys s = Inr s1
                        \<and> newEffects s s1 =
                            RequestActivateByName section panel (item_id sub) #
                            (case nc_activeControl
                                    (afterRequestActivateByName env (navigationController s)
                                       section panel (item_id sub)) of
                               None \<Rightarrow> []
                             | Some control \<Rightarrow>
                                 if subitems sub \<noteq> [] then [Trigger control] else []))))"
proof (intro conjI impI)
  assume "r = []"
  then show "navigateToSubItem env menuId keys s = Inr s"
    using assms findItem_empty_invalid [of "items s"]
    by (simp add: navigateToSubItem_def Let_def)
next
  assume "nc_activeSection (navigationController s) = None
            \<or> nc_activePanel (navigationController s) = None"
  then show "navigateToSubItem env menuId keys s = Inr s"
    using assms by (auto simp: navigateToSubItem_def Let_def split: option.splits)
next
  assume a: "r \<noteq> []
            \<and> nc_activeSection (navigationController s) = Some section
            \<and> nc_activePanel (navigationController s) = Some panel"
  then have i: "item_id (findItem (items s) r) = r"
    using matched_resolves [OF assms] by simp
  with a have v: "isValid (findItem (items s) r)" by (simp add: isValid_def)
  show "\<exists>s1. navigateToSubItem env menuId keys s = Inr s1
                  \<and> newEffects s s1 =
                      RequestActivateByName section panel r #
                      (case nc_activeControl
                              (afterRequestActivateByName env (navigationController s)
                                 section panel r) of
                         None \<Rightarrow> []
                       | Some control \<Rightarrow>
                           if subitems (findItem (items s) r) \<noteq> [] then [Trigger control]
                           else [])"
    using assms a i v
    by (simp add: navigateToSubItem_def Let_def emit_def newEffects_def split: option.splits)
next
  assume "r \<noteq> [] \<and> distinct (map item_id (allItems (items s)))"
  then show "\<exists>sub \<in> set (subitems (findMenu (items s) menuId)).
                  item_id sub = r \<and> findItem (items s) r = sub"
    using matched_unique [OF assms] by simp
next
  assume a: "r \<noteq> [] \<and> distinct (map item_id (allItems (items s)))
            \<and> nc_activeSection (navigationController s) = Some section
            \<and> nc_activePanel (navigationController s) = Some panel"
  with matched_unique [OF assms]
  obtain sub where sub: "sub \<in> set (subitems (findMenu (items s) menuId))"
      "item_id sub = r" "findItem (items s) r = sub"
    by blast
  from a sub have v: "isValid (findItem (items s) r)" by (simp add: isValid_def)
  have "\<exists>s1. navigateToSubItem env menuId keys s = Inr s1
                        \<and> newEffects s s1 =
                            RequestActivateByName section panel (item_id sub) #
                            (case nc_activeControl
                                    (afterRequestActivateByName env (navigationController s)
                                       section panel (item_id sub)) of
                               None \<Rightarrow> []
                             | Some control \<Rightarrow>
                                 if subitems sub \<noteq> [] then [Trigger control] else [])"
    using assms a sub v
    by (simp add: navigateToSubItem_def Let_def emit_def newEffects_def split: option.splits)
  with sub show "\<exists>sub \<in> set (subitems (findMenu (items s) menuId)).
                  item_id sub = r
                  \<and> (\<exists>s1. navigateToSubItem env menuId keys s = Inr s1
                        \<and> newEffects s s1 =
                            RequestActivateByName section panel (item_id sub) #
                            (case nc_activeControl
                                    (afterRequestActivateByName env (navigationController s)
                                       section panel (item_id sub)) of
                               None \<Rightarrow> []
                             | Some control \<Rightarrow>
                                 if subitems sub \<noteq> [] then [Trigger control] else []))"
    by blast
qed

theorem navigateToSubItem_cases_witness:
  "(\<exists>s1. navigateToSubItem sample_env (QStr ''file'') {134217811} idle = Inr s1
         \<and> newEffects idle s1
            = [RequestActivateByName (QStr ''AppMenu'') (QStr ''MenuPanel'') (QStr ''file-save'')])
   \<and> findItem (items idle) (QStr ''file-save'')
        = MenuItem (QStr ''file-save'') (QStr ''&Save'') []
   \<and> (\<exists>s1. navigateToSubItem sample_env (QStr ''file'') {134217810} idle = Inr s1
         \<and> newEffects idle s1
            = [RequestActivateByName (QStr ''AppMenu'') (QStr ''MenuPanel'') (QStr ''file-recent''),
               Trigger 5])
   \<and> navigateToSubItem sample_env (QStr ''file'') {134217816} idle = Inr idle
   \<and> navigateToSubItem sample_env (QStr ''file'') {134217811}
        (idle\<lparr>navigationController := (navigationController idle)\<lparr>nc_activePanel := None\<rparr>\<rparr>)
      = Inr (idle\<lparr>navigationController := (navigationController idle)\<lparr>nc_activePanel := None\<rparr>\<rparr>)"
proof -
  let ?noPanel = "idle\<lparr>navigationController := (navigationController idle)\<lparr>nc_activePanel := None\<rparr>\<rparr>"
  have n: "nc_activeSection (navigationController idle) = Some (QStr ''AppMenu'')"
          "nc_activePanel (navigationController idle) = Some (QStr ''MenuPanel'')"
    by (simp_all add: idle_def)
  have a: "nc_activeControl (afterRequestActivateByName sample_env nc x y z) = Some 5" for nc x y z
    by (simp add: sample_env_def)
  have d: "distinct (map item_id (allItems (items idle)))"
    by (simp add: idle_def menuBar_def fileMenu_def qstr_defs)
  have ne: "QStr ''file-save'' \<noteq> []" "QStr ''file-recent'' \<noteq> []"
    by (simp_all add: qstr_defs)
  have save: "menuItemId sample_env (subitems (findMenu (items idle) (QStr ''file''))) {134217811}
              = Inr (QStr ''file-save'')"
    unfolding sample_file_menu by (rule sample_save_match)
  have recent: "menuItemId sample_env (subitems (findMenu (items idle) (QStr ''file''))) {134217810}
              = Inr (QStr ''file-recent'')"
    unfolding sample_file_menu by (rule sample_recent_match)
  have none: "menuItemId sample_env (subitems (findMenu (items idle) (QStr ''file''))) {134217816}
              = Inr []"
    unfolding sample_file_menu
    by (simp add: fileMenu_def charAt_def sample_toUpper_def sample_keys_char intersects_def
          qstr_defs)
  have save': "menuItemId sample_env (subitems (findMenu (items ?noPanel) (QStr ''file''))) {134217811}
              = Inr (QStr ''file-save'')"
    using save by simp
  have l: "\<exists>s1. navigateToSubItem sample_env (QStr ''file'') {134217811} idle = Inr s1
         \<and> newEffects idle s1
            = [RequestActivateByName (QStr ''AppMenu'') (QStr ''MenuPanel'') (QStr ''file-save'')]"
    using navigateToSubItem_cases [OF save, of "QStr ''AppMenu''" "QStr ''MenuPanel''"] n a ne
    by (simp add: sample_save_item)
  have u: "findItem (items idle) (QStr ''file-save'')
            = MenuItem (QStr ''file-save'') (QStr ''&Save'') []"
  proof -
    from navigateToSubItem_cases [OF save] d ne
    have "\<exists>sub \<in> set (subitems (findMenu (items idle) (QStr ''file''))).
            item_id sub = QStr ''file-save'' \<and> findItem (items idle) (QStr ''file-save'') = sub"
      by blast
    then show ?thesis
      unfolding sample_file_menu by (auto simp: fileMenu_def qstr_defs)
  qed
  have r: "\<exists>s1. navigateToSubItem sample_env (QStr ''file'') {134217810} idle = Inr s1
         \<and> newEffects idle s1
            = [RequestActivateByName (QStr ''AppMenu'') (QStr ''MenuPanel'') (QStr ''file-recent''),
               Trigger 5]"
    using navigateToSubItem_cases [OF recent, of "QStr ''AppMenu''" "QStr ''MenuPanel''"] n a ne
    by (simp add: sample_recent_item)
  have e: "navigateToSubItem sample_env (QStr ''file'') {134217816} idle = Inr idle"
    using navigateToSubItem_cases [OF none] by simp
  have p: "navigateToSubItem sample_env (QStr ''file'') {134217811} ?noPanel = Inr ?noPanel"
    using navigateToSubItem_cases [OF save'] by simp
  from l u r e p show ?thesis by simp
qed

text \<open>In the menu bar with the two items \<open>x\<close>, the key \<open>s\<close> matches the leaf
  \<open>x\<close> under \<open>File\<close>; the store resolves \<open>x\<close> to the top-level menu, which has
  subitems, and the control is triggered.\<close>

theorem navigateToSubItem_counterexample:
  "subitems (findMenu clashBar (QStr ''file'')) = [MenuItem (QStr ''x'') (QStr ''&Save'') []]
   \<and> menuItemId sample_env (subitems (findMenu clashBar (QStr ''file''))) {134217811}
       = Inr (QStr ''x'')
   \<and> navigateToSubItem sample_env (QStr ''file'') {134217811} (idle\<lparr>items := clashBar\<rparr>)
       = Inr (idle\<lparr>items := clashBar,
                   navigationController :=
                     \<lparr>nc_isHighlight = True, nc_activeSection = Some (QStr ''AppMenu''),
                      nc_activePanel = Some (QStr ''MenuPanel''), nc_activeControl = Some 5\<rparr>,
                   emitted :=
                     [RequestActivateByName (QStr ''AppMenu'') (QStr ''MenuPanel'') (QStr ''x''),
                      Trigger 5]\<rparr>)"
proof -
  have m: "findMenu clashBar (QStr ''file'')
           = MenuItem (QStr ''file'') (QStr ''&File'') [MenuItem (QStr ''x'') (QStr ''&Save'') []]"
    by (simp add: findMenu_def clashBar_def qstr_defs)
  have k: "menuItemId sample_env [MenuItem (QStr ''x'') (QStr ''&Save'') []] {134217811}
           = Inr (QStr ''x'')"
    by (simp add: charAt_def sample_toUpper_def sample_keys_char intersects_def qstr_defs)
  have f: "findItem clashBar (QStr ''x'')
           = MenuItem (QStr ''x'') (QStr ''&X'') [MenuItem (QStr ''x-1'') (QStr ''One'') []]"
    by (simp add: findItem_def clashBar_def qstr_defs)
  have mk: "menuItemId sample_env (subitems (findMenu clashBar (QStr ''file''))) {134217811}
            = Inr (QStr ''x'')"
    unfolding m using k by simp
  have x: "QStr ''x'' \<noteq> []"
    by (simp add: qstr_defs)
  have a: "afterRequestActivateByName sample_env nc sec pan nm
           = nc\<lparr>nc_activeControl := Some 5\<rparr>" for nc sec pan nm
    by (simp add: sample_env_def)
  have n: "navigateToSubItem sample_env (QStr ''file'') {134217811} (idle\<lparr>items := clashBar\<rparr>)
       = Inr (idle\<lparr>items := clashBar,
                   navigationController :=
                     \<lparr>nc_isHighlight = True, nc_activeSection = Some (QStr ''AppMenu''),
                      nc_activePanel = Some (QStr ''MenuPanel''), nc_activeControl = Some 5\<rparr>,
                   emitted :=
                     [RequestActivateByName (QStr ''AppMenu'') (QStr ''MenuPanel'') (QStr ''x''),
                      Trigger 5]\<rparr>)"
    by (simp add: navigateToSubItem_def Let_def mk f x isValid_def emit_def idle_def a
          del: menuItemId.simps)
  from m mk n show ?thesis by simp
qed

text \<open>
  Claim C4. In the submenu-open context the shortcut-override probe is said only to mark
  the event consumed, the navigation being left to the committed key press.
  \<^verbatim>\<open>processEventForOpenedMenu\<close> handles the probe alone: an event of any other type,
  the key press included, is returned unhandled with the state as it was; and for a
  probe without modifiers, with a single character of text, that matches a subitem of the
  opened menu, it calls \<^verbatim>\<open>navigateToSubItem\<close> itself before it accepts the event
  (whose modifiers \<^verbatim>\<open>possibleKeys\<close> has set to Alt).
\<close>

theorem opened_menu_probe_navigates:
  "(ev_type event \<noteq> ShortcutOverride \<longrightarrow>
      processEventForOpenedMenu env s event = Inr (False, event, s))
   \<and> (ev_type event = ShortcutOverride \<and> ev_key event = Some ke
        \<and> ke_modifiers ke = {} \<and> length (ke_text ke) = 1
        \<and> hasSubItem env s (m_openedMenuId s)
              (snd (possibleKeys_event env ShortcutOverride ke)) = Inr True
      \<longrightarrow> (\<exists>s1. navigateToSubItem env (m_openedMenuId s)
                    (snd (possibleKeys_event env ShortcutOverride ke)) s = Inr s1
               \<and> processEventForOpenedMenu env s event
                   = Inr (True,
                          event\<lparr>ev_key := Some (ke\<lparr>ke_modifiers := {AltModifier}\<rparr>),
                                ev_accepted := True\<rparr>,
                          s1)))"
proof (intro conjI impI)
  assume "ev_type event \<noteq> ShortcutOverride"
  then show "processEventForOpenedMenu env s event = Inr (False, event, s)"
    by (simp add: processEventForOpenedMenu_def)
next
  let ?keys = "snd (possibleKeys_event env ShortcutOverride ke)"
  assume a: "ev_type event = ShortcutOverride \<and> ev_key event = Some ke
        \<and> ke_modifiers ke = {} \<and> length (ke_text ke) = 1
        \<and> hasSubItem env s (m_openedMenuId s) ?keys = Inr True"
  then obtain r where r: "menuItemId env (subitems (findMenu (items s) (m_openedMenuId s))) ?keys = Inr r"
    by (auto simp: hasSubItem_def Let_def split: if_splits sum.splits)
  from navigateToSubItem_no_error [OF r]
  obtain s1 where s1: "navigateToSubItem env (m_openedMenuId s) ?keys s = Inr s1" ..
  have "processEventForOpenedMenu env s event
          = Inr (True, event\<lparr>ev_key := Some (ke\<lparr>ke_modifiers := {AltModifier}\<rparr>),
                              ev_accepted := True\<rparr>, s1)"
    using a s1 by (simp add: processEventForOpenedMenu_def possibleKeys_event_def Let_def)
  with s1 show "\<exists>s1. navigateToSubItem env (m_openedMenuId s) ?keys s = Inr s1
               \<and> processEventForOpenedMenu env s event
                   = Inr (True,
                          event\<lparr>ev_key := Some (ke\<lparr>ke_modifiers := {AltModifier}\<rparr>),
                                ev_accepted := True\<rparr>,
                          s1)"
    by blast
qed

theorem opened_menu_probe_navigates_witness:
  "processEventForOpenedMenu sample_env (idle\<lparr>m_openedMenuId := (QStr ''file'')\<rparr>)
     (keyEvent KeyPress 83 {} (QStr ''s''))
   = Inr (False, keyEvent KeyPress 83 {} (QStr ''s''), idle\<lparr>m_openedMenuId := (QStr ''file'')\<rparr>)
   \<and> (\<exists>s1. navigateToSubItem sample_env (QStr ''file'') {134217811} (idle\<lparr>m_openedMenuId := (QStr ''file'')\<rparr>)
              = Inr s1
         \<and> processEventForOpenedMenu sample_env (idle\<lparr>m_openedMenuId := (QStr ''file'')\<rparr>)
              (keyEvent ShortcutOverride 83 {} (QStr ''s''))
            = Inr (True, (keyEvent ShortcutOverride 83 {AltModifier} (QStr ''s''))\<lparr>ev_accepted := True\<rparr>,
                   s1))"
proof -
  have k: "snd (possibleKeys_event sample_env ShortcutOverride
             \<lparr>ke_key = 83, ke_modifiers = {}, ke_text = (QStr ''s'')\<rparr>) = {134217811}"
    by (simp add: possibleKeys_event_def sample_env_def sample_possibleKeys_def Key_defs Let_def)
  have h: "hasSubItem sample_env (idle\<lparr>m_openedMenuId := (QStr ''file'')\<rparr>) (QStr ''file'') {134217811} = Inr True"
    using sample_file_menu sample_save_match
    by (simp add: hasSubItem_def Let_def) (simp add: fileMenu_def qstr_defs)
  have press: "processEventForOpenedMenu sample_env (idle\<lparr>m_openedMenuId := (QStr ''file'')\<rparr>)
       (keyEvent KeyPress 83 {} (QStr ''s''))
     = Inr (False, keyEvent KeyPress 83 {} (QStr ''s''), idle\<lparr>m_openedMenuId := (QStr ''file'')\<rparr>)"
    using opened_menu_probe_navigates
      [of "keyEvent KeyPress 83 {} (QStr ''s'')" sample_env "idle\<lparr>m_openedMenuId := (QStr ''file'')\<rparr>"]
    by (simp add: keyEvent_def)
  have probe: "\<exists>s1. navigateToSubItem sample_env (QStr ''file'') {134217811}
                      (idle\<lparr>m_openedMenuId := (QStr ''file'')\<rparr>) = Inr s1
         \<and> processEventForOpenedMenu sample_env (idle\<lparr>m_openedMenuId := (QStr ''file'')\<rparr>)
              (keyEvent ShortcutOverride 83 {} (QStr ''s''))
            = Inr (True, (keyEvent ShortcutOverride 83 {AltModifier} (QStr ''s''))\<lparr>ev_accepted := True\<rparr>,
                   s1)"
    using opened_menu_probe_navigates
      [of "keyEvent ShortcutOverride 83 {} (QStr ''s'')" sample_env "idle\<lparr>m_openedMenuId := (QStr ''file'')\<rparr>"
          "\<lparr>ke_key = 83, ke_modifiers = {}, ke_text = (QStr ''s'')\<rparr>"] k h
    by (simp add: keyEvent_def qstr_defs)
  from press probe show ?thesis by simp
qed

text \<open>With the \<open>File\<close> menu open, the probe for the key \<open>s\<close> requests the
  activation of \<open>Save\<close>; the key press that follows changes nothing.\<close>

theorem opened_menu_probe_counterexample:
  "processEventForOpenedMenu sample_env (idle\<lparr>m_openedMenuId := (QStr ''file'')\<rparr>)
     (keyEvent ShortcutOverride 83 {} (QStr ''s''))
   = Inr (True,
          (keyEvent ShortcutOverride 83 {AltModifier} (QStr ''s''))\<lparr>ev_accepted := True\<rparr>,
          idle\<lparr>m_openedMenuId := (QStr ''file''),
               navigationController :=
                 \<lparr>nc_isHighlight = True, nc_activeSection = Some (QStr ''AppMenu''),
                  nc_activePanel = Some (QStr ''MenuPanel''), nc_activeControl = Some 5\<rparr>,
               emitted := [RequestActivateByName (QStr ''AppMenu'') (QStr ''MenuPanel'') (QStr ''file-save'')]\<rparr>)
   \<and> processEventForOpenedMenu sample_env
        (idle\<lparr>m_openedMenuId := (QStr ''file''),
              navigationController :=
                 \<lparr>nc_isHighlight = True, nc_activeSection = Some (QStr ''AppMenu''),
                  nc_activePanel = Some (QStr ''MenuPanel''), nc_activeControl = Some 5\<rparr>,
              emitted := [RequestActivateByName (QStr ''AppMenu'') (QStr ''MenuPanel'') (QStr ''file-save'')]\<rparr>)
        (keyEvent KeyPress 83 {} (QStr ''s''))
     = Inr (False, keyEvent KeyPress 83 {} (QStr ''s''),
            idle\<lparr>m_openedMenuId := (QStr ''file''),
              navigationController :=
                 \<lparr>nc_isHighlight = True, nc_activeSection = Some (QStr ''AppMenu''),
                  nc_activePanel = Some (QStr ''MenuPanel''), nc_activeControl = Some 5\<rparr>,
              emitted := [RequestActivateByName (QStr ''AppMenu'') (QStr ''MenuPanel'') (QStr ''file-save'')]\<rparr>)"
proof -
  have k: "snd (possibleKeys_event sample_env ShortcutOverride
             \<lparr>ke_key = 83, ke_modifiers = {}, ke_text = (QStr ''s'')\<rparr>) = {134217811}"
    by (simp add: possibleKeys_event_def sample_env_def sample_possibleKeys_def Key_defs Let_def)
  have i: "items (idle\<lparr>m_openedMenuId := (QStr ''file'')\<rparr>) = items idle" by simp
  have "processEventForOpenedMenu sample_env (idle\<lparr>m_openedMenuId := (QStr ''file'')\<rparr>)
     (keyEvent ShortcutOverride 83 {} (QStr ''s''))
   = Inr (True,
          (keyEvent ShortcutOverride 83 {AltModifier} (QStr ''s''))\<lparr>ev_accepted := True\<rparr>,
          idle\<lparr>m_openedMenuId := (QStr ''file''),
               navigationController :=
                 \<lparr>nc_isHighlight = True, nc_activeSection = Some (QStr ''AppMenu''),
                  nc_activePanel = Some (QStr ''MenuPanel''), nc_activeControl = Some 5\<rparr>,
               emitted := [RequestActivateByName (QStr ''AppMenu'') (QStr ''MenuPanel'') (QStr ''file-save'')]\<rparr>)"
    using k
    apply (simp add: processEventForOpenedMenu_def keyEvent_def Let_def hasSubItem_def
          navigateToSubItem_def sample_file_menu sample_save_match sample_save_item
          possibleKeys_event_def isValid_def)
    apply (simp add: fileMenu_def idle_def sample_env_def emit_def qstr_defs)
    done
  then show ?thesis
    by (simp add: processEventForOpenedMenu_def keyEvent_def)
qed


subsection \<open>Lookups that resolve to nothing\<close>

text \<open>
  Claim C9. No operation raises an error for an unresolved lookup, and with an empty
  top-level sequence Move and NavigateToFirst are said to leave the state unchanged.
  With an empty sequence, \<^verbatim>\<open>navigate(Qt::Key_Left)\<close>, \<^verbatim>\<open>navigate(Qt::Key_Right)\<close>
  and \<^verbatim>\<open>navigateToFirstMenu\<close> read the identifier of the item at a position
  that does not exist and set the highlight to it: with the store's invalid placeholder
  this is \<^verbatim>\<open>resetNavigation\<close>, which changes nothing when no session is active and
  ends the session (without a restore request) when one is. Without a mnemonic match
  \<^verbatim>\<open>hasItem\<close> is false and the key press is left unhandled with the state unchanged;
  \<^verbatim>\<open>navigateToSubItem\<close> does nothing when no subitem matches; and for a menu
  identifier the store does not know, \<^verbatim>\<open>hasSubItem\<close> is false and
  \<^verbatim>\<open>navigateToSubItem\<close> does nothing.
\<close>

theorem unresolved_lookups:
  "(items s = [] \<longrightarrow>
      navigate Key_Left s = resetNavigation s \<and> navigate Key_Right s = resetNavigation s
      \<and> navigateToFirstMenu s = resetNavigation s)
   \<and> (m_highlightedMenuId s = [] \<longrightarrow> resetNavigation s = s)
   \<and> (menuItemId env (items s) keys = Inr [] \<longrightarrow> hasItem env s keys = Inr False)
   \<and> (ev_type event = KeyPress \<and> ev_key event = Some ke \<and> ke_key ke \<noteq> Key_Alt
        \<and> \<not> isNavigateKey (ke_key ke)
        \<and> hasItem env s (snd (possibleKeys_event env KeyPress ke)) = Inr False
      \<longrightarrow> (\<exists>event1. processEventForAppMenu env s event = Inr (False, event1, s)))
   \<and> (menuItemId env (subitems (findMenu (items s) menuId)) keys = Inr [] \<longrightarrow>
        navigateToSubItem env menuId keys s = Inr s)
   \<and> (lookup_items (items s) menuId = None \<longrightarrow>
        hasSubItem env s menuId keys = Inr False \<and> navigateToSubItem env menuId keys s = Inr s)"
proof (intro conjI impI)
  assume e: "items s = []"
  show "navigate Key_Left s = resetNavigation s"
    using e by (simp add: navigate_def Key_defs Let_def rowCount_def item_def dummy_def
          resetNavigation_def)
  show "navigate Key_Right s = resetNavigation s"
    using e by (simp add: navigate_def Key_defs Let_def rowCount_def item_def dummy_def
          resetNavigation_def)
  show "navigateToFirstMenu s = resetNavigation s"
    using e by (simp add: navigateToFirstMenu_def item_def dummy_def resetNavigation_def)
next
  assume "m_highlightedMenuId s = []"
  then show "resetNavigation s = s"
    by (simp add: resetNavigation_def setHighlightedMenuId_def)
next
  assume "menuItemId env (items s) keys = Inr []"
  then show "hasItem env s keys = Inr False" by (simp add: hasItem_def)
next
  assume "ev_type event = KeyPress \<and> ev_key event = Some ke \<and> ke_key ke \<noteq> Key_Alt
        \<and> \<not> isNavigateKey (ke_key ke)
        \<and> hasItem env s (snd (possibleKeys_event env KeyPress ke)) = Inr False"
  then show "\<exists>event1. processEventForAppMenu env s event = Inr (False, event1, s)"
    by (simp add: processEventForAppMenu_def Let_def possibleKeys_event_def)
next
  assume "menuItemId env (subitems (findMenu (items s) menuId)) keys = Inr []"
  then show "navigateToSubItem env menuId keys s = Inr s"
    using findItem_empty_invalid [of "items s"] by (simp add: navigateToSubItem_def Let_def)
next
  assume n: "lookup_items (items s) menuId = None"
  show "hasSubItem env s menuId keys = Inr False"
    using n by (simp add: hasSubItem_def findMenu_def dummy_def)
  show "navigateToSubItem env menuId keys s = Inr s"
    using n findItem_empty_invalid [of "items s"]
    by (simp add: navigateToSubItem_def findMenu_def dummy_def Let_def)
qed

theorem unresolved_lookups_witness:
  "navigate Key_Left (idle\<lparr>items := []\<rparr>) = idle\<lparr>items := []\<rparr>
   \<and> navigate Key_Right (idle\<lparr>items := []\<rparr>) = idle\<lparr>items := []\<rparr>
   \<and> navigateToFirstMenu (idle\<lparr>items := []\<rparr>) = idle\<lparr>items := []\<rparr>
   \<and> hasItem sample_env idle {134217816} = Inr False
   \<and> (\<exists>event1. processEventForAppMenu sample_env idle (keyEvent KeyPress 88 {AltModifier} (QStr ''x''))
                 = Inr (False, event1, idle))
   \<and> navigateToSubItem sample_env (QStr ''file'') {134217816} idle = Inr idle
   \<and> hasSubItem sample_env idle (QStr ''view'') {134217811} = Inr False
   \<and> navigateToSubItem sample_env (QStr ''view'') {134217811} idle = Inr idle"
proof -
  have k: "snd (possibleKeys_event sample_env KeyPress
             \<lparr>ke_key = 88, ke_modifiers = {AltModifier}, ke_text = (QStr ''x'')\<rparr>) = {134217816}"
    by (simp add: possibleKeys_event_def sample_env_def sample_possibleKeys_def Key_defs Let_def)
  have m: "menuItemId sample_env (items idle) {134217816} = Inr []"
    by (simp add: idle_def menuBar_def fileMenu_def charAt_def sample_toUpper_def sample_keys_char
          intersects_def qstr_defs)
  have sm: "menuItemId sample_env (subitems (findMenu (items idle) (QStr ''file''))) {134217816} = Inr []"
    unfolding sample_file_menu
    by (simp add: fileMenu_def charAt_def sample_toUpper_def sample_keys_char intersects_def
          qstr_defs)
  have v: "lookup_items (items idle) (QStr ''view'') = None"
    by (simp add: idle_def menuBar_def fileMenu_def qstr_defs)
  have nk: "\<not> isNavigateKey 88" by (simp add: isNavigateKey_def Key_defs)
  have e: "items (idle\<lparr>items := []\<rparr>) = []" "m_highlightedMenuId (idle\<lparr>items := []\<rparr>) = []"
    by (simp_all add: idle_def)
  have a: "navigate Key_Left (idle\<lparr>items := []\<rparr>) = idle\<lparr>items := []\<rparr>
   \<and> navigate Key_Right (idle\<lparr>items := []\<rparr>) = idle\<lparr>items := []\<rparr>
   \<and> navigateToFirstMenu (idle\<lparr>items := []\<rparr>) = idle\<lparr>items := []\<rparr>"
    using unresolved_lookups [of "idle\<lparr>items := []\<rparr>"] e by simp
  have b: "hasItem sample_env idle {134217816} = Inr False
   \<and> (\<exists>event1. processEventForAppMenu sample_env idle (keyEvent KeyPress 88 {AltModifier} (QStr ''x''))
                 = Inr (False, event1, idle))
   \<and> navigateToSubItem sample_env (QStr ''file'') {134217816} idle = Inr idle"
    using unresolved_lookups [of idle sample_env "{134217816}" "keyEvent KeyPress 88 {AltModifier} (QStr ''x'')"
        "\<lparr>ke_key = 88, ke_modifiers = {AltModifier}, ke_text = (QStr ''x'')\<rparr>" "(QStr ''file'')"] k m sm nk
    by (simp add: keyEvent_def Key_defs)
  have c: "hasSubItem sample_env idle (QStr ''view'') {134217811} = Inr False
   \<and> navigateToSubItem sample_env (QStr ''view'') {134217811} idle = Inr idle"
    using unresolved_lookups [of idle sample_env "{134217811}" _ _ "(QStr ''view'')"] v by simp
  from a b c show ?thesis by simp
qed

text \<open>An empty sequence under a session that highlights \<open>Edit\<close>: Move(Previous)
  clears the highlight and notifies the change.\<close>

theorem empty_menu_bar_counterexample:
  "navigate Key_Left (idle\<lparr>items := [], m_highlightedMenuId := (QStr ''edit'')\<rparr>)
   = idle\<lparr>items := [], m_highlightedMenuId := [], emitted := [HighlightedMenuIdChanged []]\<rparr>"
  by (simp add: navigate_def Key_defs Let_def rowCount_def item_def dummy_def
        setHighlightedMenuId_def emit_def idle_def qstr_defs)


end
